theory Spec2Isabelle
  imports Main "HOL-Library.Sublist" "HOL-Library.AList"
begin

section \<open>Survey export transformer: column resolution and value cleaning\<close>

text \<open>
  A shallow embedding of the class \<open>ExcelSurveyTransformer\<close> of \<open>excel_to_json.py\<close>:
  the scalar cleaning \<open>_clean_value\<close>, the text normalisation
  \<open>_normalize_question_text\<close>, the column resolution \<open>_find_column_for_question\<close>,
  the semicolon splitting \<open>_process_multiple_choice\<close>, the metadata filter
  \<open>_skip_metadata_columns\<close> and the row loop \<open>transform\<close>. The leading underscore of
  the Python names is dropped, since an Isabelle name starts with a letter.
\<close>

subsection \<open>Python strings\<close>

text \<open>
  A Python \<open>str\<close> is a sequence of code points. The model is \<open>string\<close>, a list of
  \<open>char\<close>, each \<open>char\<close> read as the code point of the same number, so the strings
  covered are those over the code points 0 to 255. The classification of these code points
  is the one of CPython's Unicode database, which \<open>str.strip\<close>, \<open>str.lower\<close> and the
  classes \<open>\s\<close> and \<open>\w\<close> of \<open>re\<close> (for a \<open>str\<close> pattern) all consult.
\<close>

definition isspace :: "char \<Rightarrow> bool" where
  \<comment> \<open>\<open>str.isspace\<close> and \<open>\s\<close>: tab to carriage return, the four separators 28 to 31,
      the space, NEL (133) and the no-break space (160).\<close>
  "isspace c =
     (let n = (of_char c :: nat)
      in (9 \<le> n \<and> n \<le> 13) \<or> (28 \<le> n \<and> n \<le> 32) \<or> n = 133 \<or> n = 160)"

definition isalnum :: "char \<Rightarrow> bool" where
  \<comment> \<open>\<open>str.isalnum\<close>: digits and letters of ASCII; of the upper half the ordinal
      indicators, the micro sign, the superscript digits, the vulgar fractions and the
      letters (all of 192 to 255 but the multiplication and division signs).\<close>
  "isalnum c =
     (let n = (of_char c :: nat)
      in (48 \<le> n \<and> n \<le> 57) \<or> (65 \<le> n \<and> n \<le> 90) \<or> (97 \<le> n \<and> n \<le> 122)
         \<or> n = 170 \<or> n = 178 \<or> n = 179 \<or> n = 181 \<or> n = 185 \<or> n = 186
         \<or> (188 \<le> n \<and> n \<le> 190)
         \<or> (192 \<le> n \<and> n \<noteq> 215 \<and> n \<noteq> 247))"

definition isword :: "char \<Rightarrow> bool" where
  \<comment> \<open>The class \<open>\w\<close>: alphanumeric, or the underscore.\<close>
  "isword c = (isalnum c \<or> c = CHR ''_'')"

definition lower_char :: "char \<Rightarrow> char" where
  \<comment> \<open>\<open>str.lower\<close> on one code point: the capitals of ASCII and of 192 to 222 (but the
      multiplication sign, 215) move up by 32.\<close>
  "lower_char c =
     (let n = (of_char c :: nat)
      in if (65 \<le> n \<and> n \<le> 90) \<or> (192 \<le> n \<and> n \<le> 222 \<and> n \<noteq> 215)
         then char_of (n + 32) else c)"

definition lower :: "string \<Rightarrow> string" where
  "lower s = map lower_char s"

definition strip :: "string \<Rightarrow> string" where
  \<comment> \<open>\<open>str.strip()\<close> without argument: whitespace goes from both ends.\<close>
  "strip s = rev (dropWhile isspace (rev (dropWhile isspace s)))"

definition remove_char :: "char \<Rightarrow> string \<Rightarrow> string" where
  \<comment> \<open>\<open>s.replace(c, '')\<close> for a pattern of one character.\<close>
  "remove_char c s = filter (\<lambda>d. d \<noteq> c) s"

fun is_in :: "string \<Rightarrow> string \<Rightarrow> bool" where
  \<comment> \<open>\<open>needle in hay\<close>: the needle occurs as a contiguous piece of the hay.\<close>
  "is_in needle [] = (needle = [])"
| "is_in needle (c # cs) = (prefix needle (c # cs) \<or> is_in needle cs)"

fun split_str :: "char \<Rightarrow> string \<Rightarrow> string list" where
  \<comment> \<open>\<open>s.split(sep)\<close> for a separator of one character: one part more than there are
      separators, empty parts kept.\<close>
  "split_str sep [] = [[]]"
| "split_str sep (c # cs) =
     (if c = sep then [] # split_str sep cs
      else (case split_str sep cs of
              [] \<Rightarrow> [[c]]
            | p # ps \<Rightarrow> (c # p) # ps))"

fun join_str :: "char \<Rightarrow> string list \<Rightarrow> string" where
  \<comment> \<open>\<open>sep.join(parts)\<close>, the inverse of the splitting.\<close>
  "join_str sep [] = []"
| "join_str sep [p] = p"
| "join_str sep (p # q # ps) = p @ sep # join_str sep (q # ps)"

fun str_nat :: "nat \<Rightarrow> string" where
  \<comment> \<open>The decimal digits of a natural number.\<close>
  "str_nat n =
     (if n < 10 then [char_of (48 + n)]
      else str_nat (n div 10) @ [char_of (48 + n mod 10)])"

declare str_nat.simps [simp del]

definition str_int :: "int \<Rightarrow> string" where
  \<comment> \<open>\<open>str(i)\<close> for an integer.\<close>
  "str_int i = (if i < 0 then CHR ''-'' # str_nat (nat (- i)) else str_nat (nat i))"

subsection \<open>Cell values\<close>

text \<open>
  A cell of a row as pandas hands it over: \<open>None\<close>, the float NaN that stands for an empty
  cell, \<open>NaT\<close> that stands for an empty cell of a date column, a string, an integer or a
  boolean. Floats other than NaN and dates other than \<open>NaT\<close> are left out: their text
  form is a matter of floating-point and calendar formatting.
\<close>

datatype cell = CNone | CNaN | CNaT | CStr string | CInt int | CBool bool

fun isna :: "cell \<Rightarrow> bool" where
  \<comment> \<open>\<open>pd.isna(value)\<close> on a scalar.\<close>
  "isna CNone = True"
| "isna CNaN = True"
| "isna CNaT = True"
| "isna _ = False"

fun str_of :: "cell \<Rightarrow> string" where
  \<comment> \<open>\<open>str(value)\<close>.\<close>
  "str_of CNone = ''None''"
| "str_of CNaN = ''nan''"
| "str_of CNaT = ''NaT''"
| "str_of (CStr s) = s"
| "str_of (CInt i) = str_int i"
| "str_of (CBool b) = (if b then ''True'' else ''False'')"

fun truthy :: "cell \<Rightarrow> bool" where
  \<comment> \<open>The truth value Python gives the cell in \<open>not value\<close>; NaN is a non-zero float,
      and \<open>NaT\<close> an object without a truth value of its own, hence true.\<close>
  "truthy CNone = False"
| "truthy CNaN = True"
| "truthy CNaT = True"
| "truthy (CStr s) = (s \<noteq> [])"
| "truthy (CInt i) = (i \<noteq> 0)"
| "truthy (CBool b) = b"

subsection \<open>Scalar cleaning\<close>

definition clean_value :: "cell \<Rightarrow> string option" where
  "clean_value v =
     (if isna v then None
      else
        let cleaned = strip (str_of v);
            cleaned = remove_char (CHR 0x22) cleaned;
            cleaned = remove_char (CHR 0x5C) cleaned
        in if cleaned = [] \<or> lower cleaned \<in> set [[], ''nan'', ''none'', ''-'']
           then None
           else Some cleaned)"

fun to_cell :: "string option \<Rightarrow> cell" where
  \<comment> \<open>The result of \<open>_clean_value\<close>, \<open>None\<close> or a string, as a value passed on.\<close>
  "to_cell None = CNone"
| "to_cell (Some s) = CStr s"

subsection \<open>Text normalisation\<close>

function collapse_ws :: "string \<Rightarrow> string" where
  \<comment> \<open>\<open>re.sub(r'\s+', ' ', s)\<close>: scanning from the left, each maximal run of whitespace
      is matched once and replaced by one space.\<close>
  "collapse_ws [] = []"
| "collapse_ws (c # cs) =
     (if isspace c then CHR '' '' # collapse_ws (dropWhile isspace cs)
      else c # collapse_ws cs)"
  by pat_completeness auto
termination
  by (relation "measure length") (auto simp: length_dropWhile_le le_imp_less_Suc)

definition normalize_question_text :: "string \<Rightarrow> string" where
  "normalize_question_text txt =
     (if txt = [] then []
      else
        let normalized = collapse_ws (lower (strip txt));
            normalized = filter (\<lambda>c. isword c \<or> isspace c) normalized
        in normalized)"

definition normalize_as_claimed :: "string \<Rightarrow> string" where
  \<comment> \<open>The normalisation in the words of the design: trim, lowercase, collapse the runs
      of whitespace, then keep only what is alphanumeric or whitespace.\<close>
  "normalize_as_claimed txt =
     filter (\<lambda>c. isalnum c \<or> isspace c) (collapse_ws (lower (strip txt)))"

subsection \<open>Column resolution\<close>

text \<open>
  The column headers and the question text are strings, as the data model of the design
  has them; on strings none of the operations below raises.
\<close>

fun first_col :: "(string \<Rightarrow> bool) \<Rightarrow> string list \<Rightarrow> string option" where
  \<comment> \<open>The loop \<open>for col in columns: if P(col): return col\<close>; \<open>None\<close> when it runs out.\<close>
  "first_col P [] = None"
| "first_col P (col # cols) = (if P col then Some col else first_col P cols)"

definition find_column_for_question :: "string list \<Rightarrow> string \<Rightarrow> string option" where
  \<comment> \<open>The first argument is \<open>self.raw_data.columns\<close>.\<close>
  "find_column_for_question cols schema_question =
     (let schema_normalized = normalize_question_text schema_question
      in case first_col (\<lambda>col. strip col = schema_question) cols of
           Some col \<Rightarrow> Some col
         | None \<Rightarrow>
            (case first_col (\<lambda>col. normalize_question_text col = schema_normalized) cols of
               Some col \<Rightarrow> Some col
             | None \<Rightarrow>
                first_col
                  (\<lambda>col. is_in schema_normalized (normalize_question_text col)
                       \<or> is_in (normalize_question_text col) schema_normalized)
                  cols))"

text \<open>
  The three strategies by name, as the design lists them: the trimmed header equals the
  question text; the normalised forms are equal; one normalised form contains the other.
\<close>

definition exact_match :: "string \<Rightarrow> string \<Rightarrow> bool" where
  "exact_match question_text header = (strip header = question_text)"

definition normalized_match :: "string \<Rightarrow> string \<Rightarrow> bool" where
  "normalized_match question_text header =
     (normalize_question_text header = normalize_question_text question_text)"

definition containment_match :: "string \<Rightarrow> string \<Rightarrow> bool" where
  "containment_match question_text header =
     (is_in (normalize_question_text question_text) (normalize_question_text header)
      \<or> is_in (normalize_question_text header) (normalize_question_text question_text))"

subsection \<open>Multiple choice and metadata columns\<close>

type_synonym question_info = "(string \<times> string) list"

definition process_multiple_choice :: "cell \<Rightarrow> question_info \<Rightarrow> string list option" where
  "process_multiple_choice v question_info =
     (if \<not> truthy v then None
      else
        let parts = map (\<lambda>part. clean_value (CStr part)) (split_str (CHR '';'') (str_of v));
            clean_parts =
              concat (map (\<lambda>part. case part of
                                     None \<Rightarrow> []
                                   | Some s \<Rightarrow> if s \<noteq> [] then [s] else []) parts)
        in if clean_parts \<noteq> [] then Some clean_parts else None)"

definition split_then_clean :: "string \<Rightarrow> string list option" where
  \<comment> \<open>The multiple-choice transform in the words of the design: split the text at each
      semicolon, clean every part, drop the parts that clean to null, and give null
      when nothing is left.\<close>
  "split_then_clean s =
     (let survivors = List.map_filter (\<lambda>part. clean_value (CStr part))
                        (split_str (CHR '';'') s)
      in if survivors = [] then None else Some survivors)"

definition metadata_indicators :: "string list" where
  "metadata_indicators =
     [''id'', ''start time'', ''completion time'', ''email'', ''name'',
      ''timestamp'', ''response id'', ''ip address'']"

definition skip_metadata_columns :: "string \<Rightarrow> bool" where
  "skip_metadata_columns col_name =
     list_ex (\<lambda>indicator. is_in indicator (lower col_name)) metadata_indicators"

subsection \<open>The row loop\<close>

text \<open>
  A value of an output record is what \<open>json.dump\<close> later writes: \<open>null\<close>, a string, a list
  of strings, or the integer of \<open>response_id\<close>. A Python \<open>dict\<close> keeps its keys in the
  order of their first insertion and an assignment to a key that is there replaces the
  value in place: an association list under \<open>AList.update\<close>. The schema's \<open>questions\<close>
  and each \<open>question_info\<close> are such dictionaries as well; a row is looked up by column
  header. The row loop has no \<open>raise\<close> and calls nothing that raises on these types,
  so its model is a total function without an error value. The index of a row is its
  position, which is what \<open>read_excel\<close> gives a sheet read without an index column.
\<close>

datatype json = JNull | JStr string | JList "string list" | JInt int

type_synonym row = "(string \<times> cell) list"
type_synonym out_record = "(string \<times> json) list"
type_synonym questions = "(string \<times> question_info) list"

record table =
  columns :: "string list"
  rows :: "row list"

definition dict_get :: "('k \<times> 'v) list \<Rightarrow> 'k \<Rightarrow> 'v \<Rightarrow> 'v" where
  \<comment> \<open>\<open>d.get(k, default)\<close>; \<open>row.get(k)\<close> has the default \<open>None\<close>.\<close>
  "dict_get d k dflt = (case map_of d k of None \<Rightarrow> dflt | Some v \<Rightarrow> v)"

fun json_str :: "string option \<Rightarrow> json" where
  "json_str None = JNull"
| "json_str (Some s) = JStr s"

fun json_list :: "string list option \<Rightarrow> json" where
  "json_list None = JNull"
| "json_list (Some ss) = JList ss"

definition transform_cell ::
  "string \<Rightarrow> question_info \<Rightarrow> string \<Rightarrow> cell \<Rightarrow> out_record \<Rightarrow> out_record" where
  \<comment> \<open>The chain on \<open>question_type\<close> that ends the body of the inner loop.\<close>
  "transform_cell question_key question_info question_type raw_value transformed_row =
     (if question_type = ''multiple_choice'' then
        AList.update question_key
          (json_list (process_multiple_choice raw_value question_info)) transformed_row
      else if question_type = ''open_text'' then
        AList.update question_key (json_str (clean_value raw_value)) transformed_row
      else if question_type = ''single_choice'' then
        AList.update question_key (json_str (clean_value raw_value)) transformed_row
      else if question_type = ''identifier'' then
        AList.update question_key (json_str (clean_value raw_value)) transformed_row
      else
        AList.update question_key (json_str (clean_value raw_value)) transformed_row)"

definition process_question ::
  "string list \<Rightarrow> row \<Rightarrow> out_record \<Rightarrow> string \<times> question_info \<Rightarrow> out_record" where
  \<comment> \<open>One pass of the inner loop over \<open>questions.items()\<close>; the column is looked for
      anew each time.\<close>
  "process_question cols r transformed_row item =
     (let question_key = fst item;
          question_info = snd item;
          question_text = dict_get question_info ''question'' [];
          question_type = dict_get question_info ''type'' []
      in case find_column_for_question cols question_text of
           None \<Rightarrow> AList.update question_key JNull transformed_row
         | Some column_name \<Rightarrow>
             if skip_metadata_columns column_name then transformed_row
             else transform_cell question_key question_info question_type
                    (dict_get r column_name CNone) transformed_row)"

definition transform_row :: "string list \<Rightarrow> questions \<Rightarrow> nat \<Rightarrow> row \<Rightarrow> out_record" where
  \<comment> \<open>One pass of the outer loop; \<open>index\<close> is the position of the row, from 0.\<close>
  "transform_row cols qs index r =
     foldl (process_question cols r) [(''response_id'', JInt (int index + 1))] qs"

definition transform :: "table \<Rightarrow> questions \<Rightarrow> out_record list" where
  "transform raw_data qs =
     map (\<lambda>(index, r). transform_row (columns raw_data) qs index r)
       (enumerate 0 (rows raw_data))"

subsection \<open>The engine with a cache of resolved columns\<close>

text \<open>
  The engine as the design describes it: each question is resolved once, before the
  rows are read, the results are kept under the question key, and the row loop reads
  them from there. What is done with a cell is unchanged.
\<close>

definition resolve_all :: "string list \<Rightarrow> questions \<Rightarrow> (string \<times> string option) list" where
  "resolve_all cols qs =
     map (\<lambda>item. (fst item,
                   find_column_for_question cols (dict_get (snd item) ''question'' []))) qs"

definition cached_question ::
  "(string \<times> string option) list \<Rightarrow> row \<Rightarrow> out_record \<Rightarrow> string \<times> question_info
     \<Rightarrow> out_record" where
  "cached_question cache r transformed_row item =
     (let question_key = fst item;
          question_info = snd item;
          question_type = dict_get question_info ''type'' []
      in case dict_get cache question_key None of
           None \<Rightarrow> AList.update question_key JNull transformed_row
         | Some column_name \<Rightarrow>
             if skip_metadata_columns column_name then transformed_row
             else transform_cell question_key question_info question_type
                    (dict_get r column_name CNone) transformed_row)"

definition transform_cached :: "table \<Rightarrow> questions \<Rightarrow> out_record list" where
  "transform_cached raw_data qs =
     (let cache = resolve_all (columns raw_data) qs
      in map (\<lambda>(index, r).
                foldl (cached_question cache r) [(''response_id'', JInt (int index + 1))] qs)
           (enumerate 0 (rows raw_data)))"

subsection \<open>A small survey\<close>

text \<open>
  A table of three columns and two rows, the second with empty cells, and a schema of three
  questions: one resolved to a metadata column, one to a multiple-choice column, and one
  that no header matches.
\<close>

definition example_table :: table where
  "example_table =
     \<lparr>columns = [''Your Name?'', ''Email'', ''Favorite colors''],
      rows = [[(''Your Name?'', CStr ''Alice Smith''), (''Email'', CStr ''a@x.com''),
               (''Favorite colors'', CStr ''Red; Blue; '')],
              [(''Your Name?'', CStr ''Bob''), (''Email'', CNaN),
               (''Favorite colors'', CNaN)]]\<rparr>"

definition example_questions :: questions where
  "example_questions =
     [(''q1'', [(''question'', ''Your Name?''), (''type'', ''open_text'')]),
      (''fav'', [(''question'', ''Favorite colors''), (''type'', ''multiple_choice'')]),
      (''zz'', [(''question'', ''Shoe size''), (''type'', ''single_choice'')])]"

section \<open>Properties\<close>

subsection \<open>Trimming and character removal\<close>

lemma set_strip_subset: "set (strip s) \<subseteq> set s"
proof
  fix x assume "x \<in> set (strip s)"
  then have "x \<in> set (dropWhile isspace (rev (dropWhile isspace s)))"
    by (simp add: strip_def)
  then have "x \<in> set (rev (dropWhile isspace s))" by (rule set_dropWhileD)
  then have "x \<in> set (dropWhile isspace s)" by simp
  then show "x \<in> set s" by (rule set_dropWhileD)
qed

lemma remove_char_id: "c \<notin> set s \<Longrightarrow> remove_char c s = s"
  by (auto simp: remove_char_def filter_id_conv)

lemma remove_char_absent: "c \<notin> set (remove_char c s)"
  by (simp add: remove_char_def)

lemma set_remove_char_subset: "set (remove_char c s) \<subseteq> set s"
  by (auto simp: remove_char_def)

lemma strip_prefix: "\<exists>w. dropWhile isspace s = strip s @ w"
proof -
  let ?t = "dropWhile isspace s"
  have "rev (takeWhile isspace (rev ?t) @ dropWhile isspace (rev ?t)) = rev (rev ?t)"
    by (simp only: takeWhile_dropWhile_id)
  then have "?t = strip s @ rev (takeWhile isspace (rev ?t))"
    by (simp only: rev_append rev_rev_ident strip_def)
  then show ?thesis by blast
qed

lemma strip_hd: "strip s \<noteq> [] \<Longrightarrow> \<not> isspace (hd (strip s))"
proof -
  assume ne: "strip s \<noteq> []"
  obtain w where w: "dropWhile isspace s = strip s @ w" using strip_prefix by blast
  then have "hd (dropWhile isspace s) = hd (strip s)" using ne by simp
  moreover have "dropWhile isspace s \<noteq> []" using w ne by simp
  then have "\<not> isspace (hd (dropWhile isspace s))" by (rule hd_dropWhile)
  ultimately show ?thesis by simp
qed

lemma strip_last: "strip s \<noteq> [] \<Longrightarrow> \<not> isspace (last (strip s))"
proof -
  assume ne: "strip s \<noteq> []"
  let ?r = "dropWhile isspace (rev (dropWhile isspace s))"
  have "?r \<noteq> []" using ne by (simp add: strip_def)
  then have "\<not> isspace (hd ?r)" by (rule hd_dropWhile)
  moreover have "last (strip s) = hd ?r" using \<open>?r \<noteq> []\<close> by (simp add: strip_def last_rev)
  ultimately show ?thesis by simp
qed

lemma strip_fixed_iff:
  "strip s = s \<longleftrightarrow> (s = [] \<or> (\<not> isspace (hd s) \<and> \<not> isspace (last s)))"
proof
  assume "strip s = s"
  then show "s = [] \<or> (\<not> isspace (hd s) \<and> \<not> isspace (last s))"
    using strip_hd [of s] strip_last [of s] by auto
next
  assume a: "s = [] \<or> (\<not> isspace (hd s) \<and> \<not> isspace (last s))"
  show "strip s = s"
  proof (cases "s = []")
    case True then show ?thesis by (simp add: strip_def)
  next
    case False
    with a have h: "\<not> isspace (hd s)" and l: "\<not> isspace (last s)" by auto
    have 1: "dropWhile isspace s = s" using h False by (simp add: dropWhile_eq_self_iff)
    have "hd (rev s) = last s" using False by (simp add: hd_rev)
    then have 2: "dropWhile isspace (rev s) = rev s" using l False by (simp add: dropWhile_eq_self_iff)
    show ?thesis by (simp add: strip_def 1 2)
  qed
qed

lemma strip_strip: "strip (strip s) = strip s"
  using strip_fixed_iff [of "strip s"] strip_hd [of s] strip_last [of s] by blast


lemma clean_value_CStr:
  "clean_value (CStr x) =
     (let s = remove_char (CHR 0x5C) (remove_char (CHR 0x22) (strip x))
      in if s = [] \<or> lower s \<in> set [[], ''nan'', ''none'', ''-''] then None else Some s)"
  by (simp add: clean_value_def Let_def)

lemma clean_value_plain:
  assumes "CHR 0x22 \<notin> set s" and "CHR 0x5C \<notin> set s"
  shows "clean_value (CStr s) =
     (if strip s = [] \<or> lower (strip s) \<in> set [[], ''nan'', ''none'', ''-'']
      then None else Some (strip s))"
proof -
  have "CHR 0x22 \<notin> set (strip s)" and "CHR 0x5C \<notin> set (strip s)"
    using assms set_strip_subset [of s] by auto
  then have "remove_char (CHR 0x5C) (remove_char (CHR 0x22) (strip s)) = strip s"
    by (simp add: remove_char_id)
  then show ?thesis by (simp add: clean_value_CStr Let_def)
qed

lemma clean_value_Some_plain:
  assumes "clean_value (CStr x) = Some s"
  shows "CHR 0x22 \<notin> set s" and "CHR 0x5C \<notin> set s"
    and "s \<noteq> []" and "lower s \<notin> set [[], ''nan'', ''none'', ''-'']"
proof -
  let ?s = "remove_char (CHR 0x5C) (remove_char (CHR 0x22) (strip x))"
  have eq: "s = ?s" and ok: "\<not> (?s = [] \<or> lower ?s \<in> set [[], ''nan'', ''none'', ''-''])"
    using assms by (auto simp: clean_value_CStr Let_def split: if_splits)
  show "CHR 0x5C \<notin> set s" unfolding eq by (rule remove_char_absent)
  have "CHR 0x22 \<notin> set (remove_char (CHR 0x22) (strip x))" by (rule remove_char_absent)
  then show "CHR 0x22 \<notin> set s" unfolding eq using set_remove_char_subset by blast
  show "s \<noteq> []" using ok eq by simp
  show "lower s \<notin> set [[], ''nan'', ''none'', ''-'']" using ok eq by simp
qed

lemma clean_value_again:
  assumes "clean_value (CStr x) = Some s"
  shows "clean_value (CStr s) = Some s \<longleftrightarrow> strip s = s"
proof -
  note p = clean_value_Some_plain [OF assms]
  have c: "clean_value (CStr s) =
     (if strip s = [] \<or> lower (strip s) \<in> set [[], ''nan'', ''none'', ''-'']
      then None else Some (strip s))"
    using p(1) p(2) by (rule clean_value_plain)
  show ?thesis
  proof
    assume "clean_value (CStr s) = Some s"
    then show "strip s = s" using c by (simp split: if_splits)
  next
    assume "strip s = s"
    then show "clean_value (CStr s) = Some s" using c p(3) p(4) by simp
  qed
qed

subsection \<open>Substrings and splitting\<close>

text \<open>
  The test \<open>in\<close> is the contiguous sublist relation, and the parts of a split hold no
  separator and give the string back when joined.
\<close>

lemma is_in_sublist: "is_in needle hay \<longleftrightarrow> sublist needle hay"
  by (induction hay) (simp_all add: sublist_Cons_right)

lemma split_str_nonempty: "split_str sep s \<noteq> []"
  by (induction s) (auto split: list.splits)

lemma split_str_no_sep: "p \<in> set (split_str sep s) \<Longrightarrow> sep \<notin> set p"
proof (induction s arbitrary: p)
  case Nil
  then show ?case by simp
next
  case (Cons c cs)
  show ?case
  proof (cases "c = sep")
    case True
    with Cons show ?thesis by auto
  next
    case False
    obtain q qs where q: "split_str sep cs = q # qs"
      using split_str_nonempty [of sep cs] by (cases "split_str sep cs") auto
    with Cons False show ?thesis by auto
  qed
qed

lemma join_split: "join_str sep (split_str sep s) = s"
proof (induction s)
  case Nil
  then show ?case by simp
next
  case (Cons c cs)
  obtain q qs where q: "split_str sep cs = q # qs"
    using split_str_nonempty [of sep cs] by (cases "split_str sep cs") auto
  show ?case
  proof (cases "c = sep")
    case True
    with Cons q show ?thesis by simp
  next
    case False
    with Cons q show ?thesis by (cases qs) auto
  qed
qed

subsection \<open>Cleaning twice\<close>

text \<open>
  Claim C9, as it stands, says that cleaning a cleaned string changes nothing. The trimming
  comes before the removal of double quotes and backslashes, so a quote that shields a
  space from the trimming leaves that space at the end of the result: the string of a
  double quote, a space, the letter a and a double quote is cleaned to a space and an a,
  and that string is cleaned to the a alone.
\<close>

theorem clean_value_not_idempotent:
  "clean_value (to_cell (clean_value (CStr [CHR 0x22, CHR '' '', CHR ''a'', CHR 0x22])))
     \<noteq> clean_value (CStr [CHR 0x22, CHR '' '', CHR ''a'', CHR 0x22])"
  by (simp add: clean_value_def strip_def remove_char_def isspace_def lower_def lower_char_def)

text \<open>
  Claim C9, amended: cleaning the result of \<open>clean_value\<close> on a string again gives the
  same result exactly when that result is null or a string that trimming leaves as it is
  (no whitespace at either end); this is so, in particular, for every string without a
  double quote and without a backslash.
\<close>

theorem clean_value_twice:
  "(clean_value (to_cell (clean_value (CStr x))) = clean_value (CStr x))
     = (case clean_value (CStr x) of None \<Rightarrow> True | Some s \<Rightarrow> strip s = s)
   \<and> (CHR 0x22 \<notin> set x \<and> CHR 0x5C \<notin> set x
        \<longrightarrow> clean_value (to_cell (clean_value (CStr x))) = clean_value (CStr x))"
proof (cases "clean_value (CStr x)")
  case None
  then show ?thesis by (simp add: clean_value_def)
next
  case (Some s)
  have a: "clean_value (CStr s) = Some s \<longleftrightarrow> strip s = s"
    using Some by (rule clean_value_again)
  have b: "strip s = s" if "CHR 0x22 \<notin> set x" "CHR 0x5C \<notin> set x"
  proof -
    have "clean_value (CStr x) =
     (if strip x = [] \<or> lower (strip x) \<in> set [[], ''nan'', ''none'', ''-'']
      then None else Some (strip x))"
      using that by (rule clean_value_plain)
    then have "s = strip x" using Some by (simp split: if_splits)
    then show ?thesis by (simp add: strip_strip)
  qed
  show ?thesis using Some a b by simp
qed

theorem clean_value_twice_witness:
  "CHR 0x22 \<notin> set ''a b'' \<and> CHR 0x5C \<notin> set ''a b''
   \<and> clean_value (CStr ''a b'') = Some ''a b''
   \<and> clean_value (to_cell (clean_value (CStr ''a b''))) = clean_value (CStr ''a b'')"
  using clean_value_twice [of "''a b''"]
  by (simp add: clean_value_def strip_def remove_char_def isspace_def lower_def lower_char_def)

subsection \<open>Column resolution\<close>

lemma first_col_find: "first_col P cols = find P cols"
  by (induction cols) auto

lemma first_col_Some_index:
  "i < length cols \<Longrightarrow> P (cols ! i) \<Longrightarrow> (\<forall>j<i. \<not> P (cols ! j)) \<Longrightarrow> first_col P cols = Some (cols ! i)"
  unfolding first_col_find find_Some_iff by blast

lemma first_col_None: "(\<forall>c\<in>set cols. \<not> P c) \<Longrightarrow> first_col P cols = None"
  unfolding first_col_find find_None_iff by blast

lemma first_col_Some_is: "first_col P cols = Some c \<Longrightarrow> c \<in> set cols \<and> P c"
  by (induction cols) (auto split: if_splits)

lemma find_column_strategies:
  "find_column_for_question cols q =
     (case first_col (exact_match q) cols of
        Some col \<Rightarrow> Some col
      | None \<Rightarrow>
         (case first_col (normalized_match q) cols of
            Some col \<Rightarrow> Some col
          | None \<Rightarrow> first_col (containment_match q) cols))"
  unfolding find_column_for_question_def Let_def exact_match_def [abs_def]
    normalized_match_def [abs_def] containment_match_def [abs_def] ..

lemma is_in_Nil [simp]: "is_in [] hay"
  by (induction hay) auto

text \<open>
  Claim C1: the three strategies are tried in order, each only when the one before found
  nothing, and within a strategy the header of the smallest index wins. So the leftmost
  header that matches exactly is the result, whatever matches the other strategies have;
  without an exact match it is the leftmost header equal in normalised form; without that
  either, the leftmost header in a containment relation; and with no match at all the
  result is \<open>None\<close>.
\<close>

theorem find_column_strategy_order:
  "(i < length cols \<and> exact_match q (cols ! i) \<and> (\<forall>j<i. \<not> exact_match q (cols ! j))
      \<longrightarrow> find_column_for_question cols q = Some (cols ! i))
   \<and> ((\<forall>c\<in>set cols. \<not> exact_match q c)
       \<and> i < length cols \<and> normalized_match q (cols ! i)
       \<and> (\<forall>j<i. \<not> normalized_match q (cols ! j))
      \<longrightarrow> find_column_for_question cols q = Some (cols ! i))
   \<and> ((\<forall>c\<in>set cols. \<not> exact_match q c \<and> \<not> normalized_match q c)
       \<and> i < length cols \<and> containment_match q (cols ! i)
       \<and> (\<forall>j<i. \<not> containment_match q (cols ! j))
      \<longrightarrow> find_column_for_question cols q = Some (cols ! i))
   \<and> ((\<forall>c\<in>set cols. \<not> exact_match q c \<and> \<not> normalized_match q c
                        \<and> \<not> containment_match q c)
      \<longrightarrow> find_column_for_question cols q = None)"
proof (intro conjI impI)
  assume "i < length cols \<and> exact_match q (cols ! i) \<and> (\<forall>j<i. \<not> exact_match q (cols ! j))"
  then have "first_col (exact_match q) cols = Some (cols ! i)"
    by (simp add: first_col_Some_index)
  then show "find_column_for_question cols q = Some (cols ! i)"
    by (simp add: find_column_strategies)
next
  assume a: "(\<forall>c\<in>set cols. \<not> exact_match q c)
       \<and> i < length cols \<and> normalized_match q (cols ! i)
       \<and> (\<forall>j<i. \<not> normalized_match q (cols ! j))"
  then have "first_col (exact_match q) cols = None" by (simp add: first_col_None)
  moreover from a have "first_col (normalized_match q) cols = Some (cols ! i)"
    by (simp add: first_col_Some_index)
  ultimately show "find_column_for_question cols q = Some (cols ! i)"
    by (simp add: find_column_strategies)
next
  assume a: "(\<forall>c\<in>set cols. \<not> exact_match q c \<and> \<not> normalized_match q c)
       \<and> i < length cols \<and> containment_match q (cols ! i)
       \<and> (\<forall>j<i. \<not> containment_match q (cols ! j))"
  then have "first_col (exact_match q) cols = None" by (simp add: first_col_None)
  moreover from a have "first_col (normalized_match q) cols = None" by (simp add: first_col_None)
  moreover from a have "first_col (containment_match q) cols = Some (cols ! i)"
    by (simp add: first_col_Some_index)
  ultimately show "find_column_for_question cols q = Some (cols ! i)"
    by (simp add: find_column_strategies)
next
  assume a: "\<forall>c\<in>set cols. \<not> exact_match q c \<and> \<not> normalized_match q c
                        \<and> \<not> containment_match q c"
  then have "first_col (exact_match q) cols = None" by (simp add: first_col_None)
  moreover from a have "first_col (normalized_match q) cols = None" by (simp add: first_col_None)
  moreover from a have "first_col (containment_match q) cols = None" by (simp add: first_col_None)
  ultimately show "find_column_for_question cols q = None"
    by (simp add: find_column_strategies)
qed

theorem find_column_strategy_order_witness:
  "find_column_for_question [''age'', ''Age '', ''Age''] ''Age'' = Some ''Age ''
   \<and> find_column_for_question [''Email'', ''AGE?'', ''age''] ''Age'' = Some ''AGE?''
   \<and> find_column_for_question [''Email'', ''Your age'', ''Age group''] ''Age'' = Some ''Your age''
   \<and> find_column_for_question [''Email''] ''Age'' = None"
proof -
  have e0: "\<not> exact_match ''Age'' ([''age'', ''Age '', ''Age''] ! 0)" by code_simp
  have e1: "exact_match ''Age'' ([''age'', ''Age '', ''Age''] ! 1)" by code_simp
  have "find_column_for_question [''age'', ''Age '', ''Age''] ''Age''
          = Some ([''age'', ''Age '', ''Age''] ! 1)"
    using find_column_strategy_order [of 1 "[''age'', ''Age '', ''Age'']" "''Age''"] e0 e1
    by simp
  then have r1: "find_column_for_question [''age'', ''Age '', ''Age''] ''Age'' = Some ''Age ''"
    by simp
  have x2: "\<forall>c\<in>set [''Email'', ''AGE?'', ''age'']. \<not> exact_match ''Age'' c" by code_simp
  have n0: "\<not> normalized_match ''Age'' ([''Email'', ''AGE?'', ''age''] ! 0)" by code_simp
  have n1: "normalized_match ''Age'' ([''Email'', ''AGE?'', ''age''] ! 1)" by code_simp
  have "find_column_for_question [''Email'', ''AGE?'', ''age''] ''Age''
          = Some ([''Email'', ''AGE?'', ''age''] ! 1)"
    using find_column_strategy_order [of 1 "[''Email'', ''AGE?'', ''age'']" "''Age''"] x2 n0 n1
    by simp
  then have r2: "find_column_for_question [''Email'', ''AGE?'', ''age''] ''Age'' = Some ''AGE?''"
    by simp
  have x3: "\<forall>c\<in>set [''Email'', ''Your age'', ''Age group''].
              \<not> exact_match ''Age'' c \<and> \<not> normalized_match ''Age'' c" by code_simp
  have c0: "\<not> containment_match ''Age'' ([''Email'', ''Your age'', ''Age group''] ! 0)"
    by code_simp
  have c1: "containment_match ''Age'' ([''Email'', ''Your age'', ''Age group''] ! 1)"
    by code_simp
  have "find_column_for_question [''Email'', ''Your age'', ''Age group''] ''Age''
          = Some ([''Email'', ''Your age'', ''Age group''] ! 1)"
    using find_column_strategy_order [of 1 "[''Email'', ''Your age'', ''Age group'']" "''Age''"]
      x3 c0 c1
    by simp
  then have r3: "find_column_for_question [''Email'', ''Your age'', ''Age group''] ''Age''
                   = Some ''Your age''"
    by simp
  have x4: "\<forall>c\<in>set [''Email'']. \<not> exact_match ''Age'' c \<and> \<not> normalized_match ''Age'' c
              \<and> \<not> containment_match ''Age'' c" by code_simp
  have r4: "find_column_for_question [''Email''] ''Age'' = None"
    using find_column_strategy_order [of 0 "[''Email'']" "''Age''"] x4 by blast
  show ?thesis using r1 r2 r3 r4 by blast
qed

text \<open>
  Claim C10: a question text whose normalised form is empty is resolved against every
  header sequence that is not empty, because the empty string is contained in every
  normalised header: when neither of the first two strategies matches, the result is
  the first header.
\<close>

theorem find_column_empty_normal_form:
  "normalize_question_text q = [] \<longrightarrow>
     find_column_for_question (c # cs) q \<noteq> None
     \<and> ((\<forall>col\<in>set (c # cs). \<not> exact_match q col \<and> \<not> normalized_match q col)
          \<longrightarrow> find_column_for_question (c # cs) q = Some c)"
proof (intro impI conjI)
  assume e: "normalize_question_text q = []"
  then have cm: "containment_match q c" by (simp add: containment_match_def)
  then have f: "first_col (containment_match q) (c # cs) = Some c" by simp
  show "find_column_for_question (c # cs) q \<noteq> None"
    unfolding find_column_strategies using f by (simp split: option.splits)
  assume a: "\<forall>col\<in>set (c # cs). \<not> exact_match q col \<and> \<not> normalized_match q col"
  then have "first_col (exact_match q) (c # cs) = None" by (intro first_col_None) simp
  moreover from a have "first_col (normalized_match q) (c # cs) = None"
    by (intro first_col_None) simp
  ultimately show "find_column_for_question (c # cs) q = Some c"
    unfolding find_column_strategies using f by simp
qed

theorem find_column_empty_normal_form_witness:
  "normalize_question_text ''?!'' = []
   \<and> find_column_for_question [''Email'', ''Age''] ''?!'' = Some ''Email''"
proof -
  have e: "normalize_question_text ''?!'' = []" by code_simp
  have x: "\<forall>col\<in>set [''Email'', ''Age''].
             \<not> exact_match ''?!'' col \<and> \<not> normalized_match ''?!'' col" by code_simp
  show ?thesis
    using find_column_empty_normal_form [of "''?!''" "''Email''" "[''Age'']"] e x by blast
qed

subsection \<open>Text normalisation\<close>

lemma set_collapse_ws: "set (collapse_ws s) \<subseteq> {c \<in> set s. \<not> isspace c} \<union> {CHR '' ''}"
proof (induction s rule: collapse_ws.induct)
  case 1
  then show ?case by simp
next
  case (2 c cs)
  show ?case
  proof (cases "isspace c")
    case True
    have "set (dropWhile isspace cs) \<subseteq> set cs" using set_dropWhileD by fastforce
    with 2(1) [OF True] True show ?thesis by auto
  next
    case False
    with 2(2) [OF False] show ?thesis by auto
  qed
qed

lemma capital_not_63:
  "(n::nat) < 256 \<Longrightarrow> (n + 32) mod 256 = 95 \<Longrightarrow>
   (65 \<le> n \<and> n \<le> 90) \<or> (192 \<le> n \<and> n \<le> 222 \<and> n \<noteq> 215) \<Longrightarrow> False"
proof -
  assume a: "n < 256" and m: "(n + 32) mod 256 = 95"
    and c: "(65 \<le> n \<and> n \<le> 90) \<or> (192 \<le> n \<and> n \<le> 222 \<and> n \<noteq> 215)"
  show False
  proof (cases "n + 32 < 256")
    case True
    then have "(n + 32) mod 256 = n + 32" by simp
    with m c show False by linarith
  next
    case False
    then have "(n + 32) mod 256 = n + 32 - 256" using a by (simp add: mod_if)
    with m a show False by linarith
  qed
qed

lemma lower_char_underscore: "lower_char c = CHR ''_'' \<Longrightarrow> c = CHR ''_''"
proof -
  assume a: "lower_char c = CHR ''_''"
  let ?n = "of_char c :: nat"
  show ?thesis
  proof (cases "(65 \<le> ?n \<and> ?n \<le> 90) \<or> (192 \<le> ?n \<and> ?n \<le> 222 \<and> ?n \<noteq> 215)")
    case True
    then have "char_of (?n + 32) = CHR ''_''" using a by (simp add: lower_char_def Let_def)
    then have "of_char (char_of (?n + 32) :: char) = (of_char (CHR ''_'') :: nat)" by simp
    then have m: "(?n + 32) mod 256 = 95" by simp
    have "?n mod 256 = ?n" by (rule of_char_mod_256)
    then have "?n < 256" by (metis mod_less_divisor zero_less_numeral)
    then have False using m True by (rule capital_not_63)
    then show ?thesis ..
  next
    case False
    then have "lower_char c = c" unfolding lower_char_def Let_def by (rule if_not_P)
    then show ?thesis using a by simp
  qed
qed

lemma underscore_free_pipeline:
  assumes "CHR ''_'' \<notin> set txt"
  shows "CHR ''_'' \<notin> set (collapse_ws (lower (strip txt)))"
proof
  assume "CHR ''_'' \<in> set (collapse_ws (lower (strip txt)))"
  then have "CHR ''_'' \<in> set (lower (strip txt))" using set_collapse_ws by fastforce
  then obtain c where "c \<in> set (strip txt)" and "lower_char c = CHR ''_''"
    by (auto simp: lower_def)
  then have "CHR ''_'' \<in> set (strip txt)" using lower_char_underscore by blast
  then show False using assms set_strip_subset by blast
qed

lemma normalize_pipeline:
  "normalize_question_text txt =
     filter (\<lambda>c. isalnum c \<or> c = CHR ''_'' \<or> isspace c) (collapse_ws (lower (strip txt)))"
  by (cases "txt = []") (simp_all add: normalize_question_text_def Let_def isword_def strip_def lower_def)

text \<open>
  Claim C2, as it stands, has the last step remove every character that is neither
  alphanumeric nor whitespace, the underscore among them. The pattern of that step is
  \<open>[^\w\s]\<close>, and the class \<open>\w\<close> holds the underscore, which therefore stays.
\<close>

theorem normalize_keeps_underscore_example:
  "normalize_question_text ''a_b'' \<noteq> normalize_as_claimed ''a_b''"
  by code_simp

text \<open>
  Claim C2, amended: the normalisation trims, lowercases, replaces every run of whitespace
  by one space and then removes every character that is not alphanumeric, not the
  underscore and not whitespace. What is left are alphanumeric characters, underscores and
  spaces; on a text without underscore the result is the one the claim describes.
\<close>

theorem normalize_question_text_steps:
  "normalize_question_text txt =
     filter (\<lambda>c. isalnum c \<or> c = CHR ''_'' \<or> isspace c) (collapse_ws (lower (strip txt)))
   \<and> (\<forall>c\<in>set (normalize_question_text txt). isalnum c \<or> c = CHR ''_'' \<or> c = CHR '' '')
   \<and> (CHR ''_'' \<notin> set txt \<longrightarrow> normalize_question_text txt = normalize_as_claimed txt)"
proof (intro conjI ballI impI)
  show "normalize_question_text txt =
     filter (\<lambda>c. isalnum c \<or> c = CHR ''_'' \<or> isspace c) (collapse_ws (lower (strip txt)))"
    by (rule normalize_pipeline)
next
  fix c assume "c \<in> set (normalize_question_text txt)"
  then have k: "isalnum c \<or> c = CHR ''_'' \<or> isspace c"
    and m: "c \<in> set (collapse_ws (lower (strip txt)))"
    by (simp_all add: normalize_pipeline)
  from m have "\<not> isspace c \<or> c = CHR '' ''" using set_collapse_ws by fastforce
  with k show "isalnum c \<or> c = CHR ''_'' \<or> c = CHR '' ''" by blast
next
  assume "CHR ''_'' \<notin> set txt"
  then have "CHR ''_'' \<notin> set (collapse_ws (lower (strip txt)))"
    by (rule underscore_free_pipeline)
  then have "filter (\<lambda>c. isalnum c \<or> c = CHR ''_'' \<or> isspace c) (collapse_ws (lower (strip txt)))
           = filter (\<lambda>c. isalnum c \<or> isspace c) (collapse_ws (lower (strip txt)))"
    by (intro filter_cong) auto
  then show "normalize_question_text txt = normalize_as_claimed txt"
    by (simp add: normalize_pipeline normalize_as_claimed_def)
qed

theorem normalize_question_text_steps_witness:
  "CHR ''_'' \<notin> set ''  Your   AGE?! ''
   \<and> normalize_question_text ''  Your   AGE?! '' = ''your age''
   \<and> normalize_as_claimed ''  Your   AGE?! '' = ''your age''
   \<and> normalize_question_text ''a_b'' = ''a_b''
   \<and> (isalnum (CHR ''b'') \<or> CHR ''b'' = CHR ''_'' \<or> CHR ''b'' = CHR '' '')"
proof -
  have u: "CHR ''_'' \<notin> set ''  Your   AGE?! ''" by simp
  have v: "normalize_as_claimed ''  Your   AGE?! '' = ''your age''" by code_simp
  have w: "normalize_question_text ''a_b'' = ''a_b''" by code_simp
  have a: "normalize_question_text ''  Your   AGE?! '' = normalize_as_claimed ''  Your   AGE?! ''"
    using normalize_question_text_steps [of "''  Your   AGE?! ''"] u by blast
  have "\<forall>c\<in>set (normalize_question_text ''a_b'').
          isalnum c \<or> c = CHR ''_'' \<or> c = CHR '' ''"
    using normalize_question_text_steps [of "''a_b''"] by blast
  then have b: "isalnum (CHR ''b'') \<or> CHR ''b'' = CHR ''_'' \<or> CHR ''b'' = CHR '' ''"
    unfolding w by simp
  show ?thesis using a b u v w by (simp only: simp_thms)
qed

subsection \<open>Multiple choice\<close>

lemma clean_value_nonempty: "clean_value v = Some s \<Longrightarrow> s \<noteq> []"
  by (auto simp: clean_value_def Let_def split: if_splits)

lemma keep_truthy_parts:
  "concat (map (\<lambda>part. case part of None \<Rightarrow> [] | Some s \<Rightarrow> if s \<noteq> [] then [s] else [])
             (map (\<lambda>part. clean_value (CStr part)) ps))
   = List.map_filter (\<lambda>part. clean_value (CStr part)) ps"
proof (induction ps)
  case Nil
  then show ?case by (simp add: List.map_filter_simps)
next
  case (Cons p ps)
  then show ?case
    by (cases "clean_value (CStr p)") (auto simp: List.map_filter_simps dest: clean_value_nonempty)
qed

lemma process_multiple_choice_truthy:
  "truthy v \<Longrightarrow> process_multiple_choice v qi = split_then_clean (str_of v)"
  unfolding process_multiple_choice_def split_then_clean_def Let_def keep_truthy_parts
  by simp

lemma clean_value_empty: "clean_value (CStr []) = None"
  by (simp add: clean_value_def strip_def remove_char_def)

lemma split_then_clean_empty: "split_then_clean [] = None"
  by (simp add: split_then_clean_def List.map_filter_simps clean_value_empty)

text \<open>
  Claim C3 has every present value split and cleaned, the number 0 giving the sequence of
  the one string \<open>0\<close>. The function returns early on \<open>not value\<close>, which holds for the
  integer 0 as it does for \<open>None\<close>: the result for 0 is null, while \<open>_clean_value\<close>, which
  asks \<open>pd.isna\<close>, gives the string \<open>0\<close> for the same cell.
\<close>

theorem process_multiple_choice_zero:
  "process_multiple_choice (CInt 0) qi = None \<and> clean_value (CInt 0) = Some ''0''"
proof
  show "process_multiple_choice (CInt 0) qi = None" by (simp add: process_multiple_choice_def)
  show "clean_value (CInt 0) = Some ''0''" by code_simp
qed

text \<open>
  Claim C8: the text form of the raw value is split at the semicolons as it is, and each
  part is cleaned after that; parts that clean to null are dropped. This holds for every
  string and for every other value that passes the test on \<open>not value\<close>. The string
  \<open>a;b;;  c \<close> gives the three strings a, b and c.
\<close>

theorem process_multiple_choice_split_first:
  "(truthy v \<longrightarrow> process_multiple_choice v qi = split_then_clean (str_of v))
   \<and> process_multiple_choice (CStr s) qi = split_then_clean s
   \<and> process_multiple_choice (CStr ''a;b;;  c '') qi = Some [''a'', ''b'', ''c'']"
proof (intro conjI impI)
  assume "truthy v"
  then show "process_multiple_choice v qi = split_then_clean (str_of v)"
    by (rule process_multiple_choice_truthy)
next
  show s: "process_multiple_choice (CStr s) qi = split_then_clean s" for s
  proof (cases "s = []")
    case True
    then show ?thesis by (simp add: process_multiple_choice_def split_then_clean_empty)
  next
    case False
    then have "truthy (CStr s)" by simp
    then show ?thesis using process_multiple_choice_truthy by fastforce
  qed
  have "split_then_clean ''a;b;;  c '' = Some [''a'', ''b'', ''c'']" by code_simp
  then show "process_multiple_choice (CStr ''a;b;;  c '') qi = Some [''a'', ''b'', ''c'']"
    by (simp add: s)
qed

theorem process_multiple_choice_split_first_witness:
  "truthy (CInt 12) \<and> process_multiple_choice (CInt 12) [] = Some [''12'']
   \<and> process_multiple_choice (CStr ''Red; Blue; '') [] = Some [''Red'', ''Blue'']"
proof -
  have t: "truthy (CInt 12)" by simp
  have a: "split_then_clean (str_of (CInt 12)) = Some [''12'']" by code_simp
  have b: "split_then_clean ''Red; Blue; '' = Some [''Red'', ''Blue'']" by code_simp
  show ?thesis
    using process_multiple_choice_split_first [of "CInt 12" "[]" "''Red; Blue; ''"] t a b
    by simp
qed

subsection \<open>The row loop\<close>

lemma transform_cell_update:
  "\<exists>val. \<forall>rec. transform_cell k qi t raw rec = AList.update k val rec"
proof (cases "t = ''multiple_choice''")
  case True
  then have "\<forall>rec. transform_cell k qi t raw rec
               = AList.update k (json_list (process_multiple_choice raw qi)) rec"
    by (simp add: transform_cell_def)
  then show ?thesis by (rule exI)
next
  case False
  then have "\<forall>rec. transform_cell k qi t raw rec
               = AList.update k (json_str (clean_value raw)) rec"
    by (simp add: transform_cell_def)
  then show ?thesis by (rule exI)
qed

lemma process_question_cases:
  "(\<forall>rec. process_question cols r rec item = rec)
   \<or> (\<exists>val. \<forall>rec. process_question cols r rec item = AList.update (fst item) val rec)"
proof (cases "find_column_for_question cols (dict_get (snd item) ''question'' [])")
  case None
  then have "\<forall>rec. process_question cols r rec item = AList.update (fst item) JNull rec"
    by (simp add: process_question_def Let_def)
  then have "\<exists>val. \<forall>rec. process_question cols r rec item = AList.update (fst item) val rec"
    by (rule exI)
  then show ?thesis by (rule disjI2)
next
  case (Some c)
  show ?thesis
  proof (cases "skip_metadata_columns c")
    case True
    with Some have "\<forall>rec. process_question cols r rec item = rec"
      by (simp add: process_question_def Let_def)
    then show ?thesis by (rule disjI1)
  next
    case False
    obtain val where v: "\<forall>rec. transform_cell (fst item) (snd item) (dict_get (snd item) ''type'' [])
                         (dict_get r c CNone) rec = AList.update (fst item) val rec"
      using transform_cell_update by blast
    have "\<forall>rec. process_question cols r rec item = AList.update (fst item) val rec"
      using Some False v by (simp add: process_question_def Let_def)
    then have "\<exists>val. \<forall>rec. process_question cols r rec item = AList.update (fst item) val rec"
      by (rule exI)
    then show ?thesis by (rule disjI2)
  qed
qed

lemma process_question_other_key:
  "fst item \<noteq> k \<Longrightarrow> map_of (process_question cols r rec item) k = map_of rec k"
proof -
  assume "fst item \<noteq> k"
  then have "map_of (AList.update (fst item) val rec) k = map_of rec k" for val
    by (simp add: update_conv')
  then show ?thesis using process_question_cases [of cols r item] by metis
qed

lemma process_question_cong:
  "map_of rec k = map_of rec' k \<Longrightarrow>
   map_of (process_question cols r rec item) k = map_of (process_question cols r rec' item) k"
proof -
  assume "map_of rec k = map_of rec' k"
  then have "map_of (AList.update (fst item) val rec) k
               = map_of (AList.update (fst item) val rec') k" for val
    by (simp add: update_conv')
  then show ?thesis
    using process_question_cases [of cols r item] \<open>map_of rec k = map_of rec' k\<close> by metis
qed

lemma foldl_other_keys:
  "\<forall>item\<in>set qs. fst item \<noteq> k \<Longrightarrow>
   map_of (foldl (process_question cols r) rec qs) k = map_of rec k"
  by (induction qs arbitrary: rec) (simp_all add: process_question_other_key)

lemma foldl_at_key:
  assumes "distinct (map fst qs)" and "(k, qi) \<in> set qs"
  shows "\<exists>rec'. map_of (foldl (process_question cols r) rec qs) k
                 = map_of (process_question cols r rec' (k, qi)) k
               \<and> map_of rec' k = map_of rec k"
proof -
  obtain pre post where qs: "qs = pre @ (k, qi) # post"
    using assms(2) by (meson split_list)
  have "k \<notin> fst ` set pre \<and> k \<notin> fst ` set post"
    using assms(1) unfolding qs by auto
  then have pre: "\<forall>item\<in>set pre. fst item \<noteq> k" and post: "\<forall>item\<in>set post. fst item \<noteq> k"
    by auto
  let ?rec' = "foldl (process_question cols r) rec pre"
  have "foldl (process_question cols r) rec qs
          = foldl (process_question cols r) (process_question cols r ?rec' (k, qi)) post"
    by (simp add: qs)
  then have 1: "map_of (foldl (process_question cols r) rec qs) k
          = map_of (process_question cols r ?rec' (k, qi)) k"
    using post by (simp add: foldl_other_keys)
  have 2: "map_of ?rec' k = map_of rec k" using pre by (rule foldl_other_keys)
  show ?thesis using 1 2 by blast
qed

lemma transform_length: "length (transform raw_data qs) = length (rows raw_data)"
  by (simp add: transform_def)

lemma transform_nth:
  "i < length (rows raw_data) \<Longrightarrow>
   transform raw_data qs ! i = transform_row (columns raw_data) qs i (rows raw_data ! i)"
  by (simp add: transform_def nth_enumerate_eq)

lemma transform_member:
  "rec \<in> set (transform raw_data qs) \<Longrightarrow>
   \<exists>i<length (rows raw_data). rec = transform_row (columns raw_data) qs i (rows raw_data ! i)"
proof -
  assume "rec \<in> set (transform raw_data qs)"
  then obtain i where "i < length (transform raw_data qs)" and "transform raw_data qs ! i = rec"
    unfolding in_set_conv_nth by blast
  then show ?thesis using transform_length [of raw_data qs] transform_nth [of i raw_data qs]
    by auto
qed

lemma resolve_all_lookup:
  assumes "distinct (map fst qs)" and "item \<in> set qs"
  shows "dict_get (resolve_all cols qs) (fst item) None
           = find_column_for_question cols (dict_get (snd item) ''question'' [])"
proof -
  have "map_of qs (fst item) = Some (snd item)" using assms by (simp add: map_of_is_SomeI)
  moreover have "map_of (resolve_all cols qs) k
      = map_option (\<lambda>qi. find_column_for_question cols (dict_get qi ''question'' [])) (map_of qs k)"
    for k unfolding resolve_all_def by (induction qs) auto
  ultimately show ?thesis by (simp add: dict_get_def split: option.splits)
qed

lemma cached_question_agrees:
  assumes "distinct (map fst qs)" and "item \<in> set qs"
  shows "cached_question (resolve_all cols qs) r rec item = process_question cols r rec item"
  by (simp add: cached_question_def process_question_def Let_def resolve_all_lookup [OF assms])

lemma foldl_without_key:
  "map_of rec k' = map_of rec' k' \<Longrightarrow> k' \<noteq> k \<Longrightarrow>
   map_of (foldl (process_question cols r) rec qs) k'
     = map_of (foldl (process_question cols r) rec' (filter (\<lambda>item. fst item \<noteq> k) qs)) k'"
proof (induction qs arbitrary: rec rec')
  case Nil
  then show ?case by simp
next
  case (Cons item qs)
  show ?case
  proof (cases "fst item = k")
    case True
    then have "map_of (process_question cols r rec item) k' = map_of rec k'"
      using Cons.prems(2) by (simp add: process_question_other_key)
    then have "map_of (process_question cols r rec item) k' = map_of rec' k'"
      using Cons.prems(1) by simp
    then have "map_of (foldl (process_question cols r) (process_question cols r rec item) qs) k'
      = map_of (foldl (process_question cols r) rec' (filter (\<lambda>item. fst item \<noteq> k) qs)) k'"
      using Cons.prems(2) by (rule Cons.IH)
    then show ?thesis using True by simp
  next
    case False
    have "map_of (process_question cols r rec item) k'
            = map_of (process_question cols r rec' item) k'"
      using Cons.prems(1) by (rule process_question_cong)
    then have "map_of (foldl (process_question cols r) (process_question cols r rec item) qs) k'
      = map_of (foldl (process_question cols r) (process_question cols r rec' item)
                  (filter (\<lambda>item. fst item \<noteq> k) qs)) k'"
      using Cons.prems(2) by (rule Cons.IH)
    then show ?thesis using False by simp
  qed
qed

lemma isna_clean_value: "isna raw \<Longrightarrow> clean_value raw = None"
  by (simp add: clean_value_def)

lemma isna_process_multiple_choice:
  "isna raw \<Longrightarrow> raw \<noteq> CNaT \<Longrightarrow> process_multiple_choice raw qi = None"
proof (cases raw)
  case CNone
  then show ?thesis by (simp add: process_multiple_choice_def)
next
  case CNaN
  have "split_then_clean ''nan'' = None" by code_simp
  then show ?thesis using CNaN process_multiple_choice_truthy [of CNaN qi] by simp
qed simp_all

lemma isna_transform_cell:
  "isna raw \<Longrightarrow> t \<noteq> ''multiple_choice'' \<or> raw \<noteq> CNaT \<Longrightarrow>
   transform_cell k qi t raw rec = AList.update k JNull rec"
  by (auto simp: transform_cell_def isna_clean_value isna_process_multiple_choice)

text \<open>
  Claim C4: the row loop looks the column of a question up anew in every row, and the
  records it builds are those of the engine that resolves every question once, before the
  rows, and reads the result from a cache under the question key. The keys of the
  schema are distinct, as the keys of a dictionary are.
\<close>

theorem transform_resolves_once:
  "distinct (map fst qs) \<Longrightarrow> transform raw_data qs = transform_cached raw_data qs"
proof -
  assume d: "distinct (map fst qs)"
  have "foldl (process_question (columns raw_data) r) init qs
          = foldl (cached_question (resolve_all (columns raw_data) qs) r) init qs" for r init
    by (rule foldl_cong) (simp_all add: cached_question_agrees [OF d])
  then show ?thesis
    by (simp add: transform_def transform_cached_def transform_row_def Let_def)
qed

theorem transform_resolves_once_witness:
  "distinct (map fst example_questions)
   \<and> transform_cached example_table example_questions
       = [[(''response_id'', JInt 1), (''fav'', JList [''Red'', ''Blue'']), (''zz'', JNull)],
          [(''response_id'', JInt 2), (''fav'', JNull), (''zz'', JNull)]]"
proof -
  have d: "distinct (map fst example_questions)" by code_simp
  have t: "transform example_table example_questions
       = [[(''response_id'', JInt 1), (''fav'', JList [''Red'', ''Blue'']), (''zz'', JNull)],
          [(''response_id'', JInt 2), (''fav'', JNull), (''zz'', JNull)]]" by code_simp
  show ?thesis using transform_resolves_once [OF d, of example_table] d t by simp
qed

text \<open>
  Claim C5, as it stands, has the key of a question that is resolved to a metadata column
  absent from every record. Every record starts with the key \<open>response_id\<close>, so a
  question of that very key is there all the same, with the number of the row.
\<close>

theorem response_id_key_stays:
  "find_column_for_question [''Name''] ''Name'' = Some ''Name''
   \<and> skip_metadata_columns ''Name''
   \<and> transform \<lparr>columns = [''Name''], rows = [[(''Name'', CStr ''Bob'')]]\<rparr>
        [(''response_id'', [(''question'', ''Name''), (''type'', ''open_text'')])]
      = [[(''response_id'', JInt 1)]]"
  by code_simp

text \<open>
  Claim C5, amended: a question whose key is not \<open>response_id\<close> and whose resolved column
  is a metadata column (its header, lowercased, contains one of the eight indicators) has
  its key in no record of the output: the key is left out, not set to null.
\<close>

theorem metadata_question_omitted:
  "distinct (map fst qs) \<Longrightarrow> (k, qi) \<in> set qs \<Longrightarrow> k \<noteq> ''response_id'' \<Longrightarrow>
   find_column_for_question (columns raw_data) (dict_get qi ''question'' []) = Some c \<Longrightarrow>
   skip_metadata_columns c \<Longrightarrow>
   \<forall>rec\<in>set (transform raw_data qs). k \<notin> fst ` set rec"
proof
  assume d: "distinct (map fst qs)" and m: "(k, qi) \<in> set qs" and k: "k \<noteq> ''response_id''"
    and f: "find_column_for_question (columns raw_data) (dict_get qi ''question'' []) = Some c"
    and s: "skip_metadata_columns c"
  fix rec assume "rec \<in> set (transform raw_data qs)"
  then obtain i where i: "i < length (rows raw_data)"
    and rec: "rec = transform_row (columns raw_data) qs i (rows raw_data ! i)"
    using transform_member by blast
  let ?r = "rows raw_data ! i"
  let ?init = "[(''response_id'', JInt (int i + 1))]"
  obtain rec' where 1: "map_of (foldl (process_question (columns raw_data) ?r) ?init qs) k
         = map_of (process_question (columns raw_data) ?r rec' (k, qi)) k"
    and 2: "map_of rec' k = map_of ?init k"
    using foldl_at_key [OF d m] by blast
  have "process_question (columns raw_data) ?r rec' (k, qi) = rec'"
    using f s by (simp add: process_question_def Let_def)
  then have "map_of rec k = map_of ?init k"
    using 1 2 by (simp add: rec transform_row_def)
  then have "map_of rec k = None" using k by simp
  then show "k \<notin> fst ` set rec" by (simp add: map_of_eq_None_iff)
qed

theorem metadata_question_omitted_witness:
  "''q1'' \<noteq> ''response_id''
   \<and> find_column_for_question (columns example_table) ''Your Name?'' = Some ''Your Name?''
   \<and> skip_metadata_columns ''Your Name?''
   \<and> ''q1'' \<notin> fst ` set (transform example_table example_questions ! 0)
   \<and> ''q1'' \<notin> fst ` set (transform example_table example_questions ! 1)"
proof -
  have d: "distinct (map fst example_questions)" by code_simp
  have m: "(''q1'', [(''question'', ''Your Name?''), (''type'', ''open_text'')])
             \<in> set example_questions" by (simp add: example_questions_def)
  have k: "''q1'' \<noteq> ''response_id''" by simp
  have f: "find_column_for_question (columns example_table)
             (dict_get [(''question'', ''Your Name?''), (''type'', ''open_text'')]
                ''question'' []) = Some ''Your Name?''" by code_simp
  have f': "find_column_for_question (columns example_table) ''Your Name?'' = Some ''Your Name?''"
    by code_simp
  have s: "skip_metadata_columns ''Your Name?''" by code_simp
  have a: "length (transform example_table example_questions) = 2"
    by (simp add: transform_length example_table_def)
  note u = metadata_question_omitted [OF d m k f s]
  have m0: "transform example_table example_questions ! 0
              \<in> set (transform example_table example_questions)"
    and m1: "transform example_table example_questions ! 1
              \<in> set (transform example_table example_questions)"
    using a by simp_all
  have b0: "''q1'' \<notin> fst ` set (transform example_table example_questions ! 0)"
    using u m0 by blast
  have b1: "''q1'' \<notin> fst ` set (transform example_table example_questions ! 1)"
    using u m1 by blast
  show ?thesis using k f' s b0 b1 by (simp only: simp_thms)
qed

text \<open>
  What holds of a missing cell: when a question is resolved to a column that is not a
  metadata column and the cell of a row in that column is missing, the record of that row
  has null under the key of the question, unless the type is \<open>multiple_choice\<close> and the
  missing cell is \<open>NaT\<close>.
\<close>

lemma missing_cell_null_elsewhere:
  "distinct (map fst qs) \<Longrightarrow> (k, qi) \<in> set qs \<Longrightarrow>
   find_column_for_question (columns raw_data) (dict_get qi ''question'' []) = Some c \<Longrightarrow>
   \<not> skip_metadata_columns c \<Longrightarrow>
   i < length (rows raw_data) \<Longrightarrow>
   isna (dict_get (rows raw_data ! i) c CNone) \<Longrightarrow>
   dict_get qi ''type'' [] \<noteq> ''multiple_choice'' \<or> dict_get (rows raw_data ! i) c CNone \<noteq> CNaT \<Longrightarrow>
   map_of (transform raw_data qs ! i) k = Some JNull"
proof -
  assume d: "distinct (map fst qs)" and m: "(k, qi) \<in> set qs"
    and f: "find_column_for_question (columns raw_data) (dict_get qi ''question'' []) = Some c"
    and s: "\<not> skip_metadata_columns c" and i: "i < length (rows raw_data)"
    and n: "isna (dict_get (rows raw_data ! i) c CNone)"
    and t: "dict_get qi ''type'' [] \<noteq> ''multiple_choice''
            \<or> dict_get (rows raw_data ! i) c CNone \<noteq> CNaT"
  let ?r = "rows raw_data ! i"
  let ?init = "[(''response_id'', JInt (int i + 1))]"
  obtain rec' where
    "map_of (foldl (process_question (columns raw_data) ?r) ?init qs) k
       = map_of (process_question (columns raw_data) ?r rec' (k, qi)) k"
    using foldl_at_key [OF d m] by blast
  moreover have "transform_cell k qi (dict_get qi ''type'' []) (dict_get ?r c CNone) rec'
                   = AList.update k JNull rec'"
    using n t by (rule isna_transform_cell)
  then have "process_question (columns raw_data) ?r rec' (k, qi) = AList.update k JNull rec'"
    using f s by (simp add: process_question_def Let_def)
  ultimately have "map_of (transform_row (columns raw_data) qs i ?r) k = Some JNull"
    by (simp add: transform_row_def update_conv')
  then show ?thesis using i by (simp add: transform_nth)
qed

text \<open>
  Claim C6 has every missing cell give null, whatever the declared type is. The empty cell
  of a date column is \<open>NaT\<close>: \<open>pd.isna\<close> holds of it, so \<open>_clean_value\<close> gives null,
  but it passes the test on \<open>not value\<close> in \<open>_process_multiple_choice\<close>, its text
  \<open>NaT\<close> is none of the placeholders, and a multiple-choice question resolved to that
  column gets the sequence of the one string \<open>NaT\<close>.
\<close>

theorem missing_date_cell_multiple_choice:
  "isna CNaT
   \<and> clean_value CNaT = None
   \<and> process_multiple_choice CNaT [] = Some [''NaT'']
   \<and> find_column_for_question [''When''] ''When'' = Some ''When''
   \<and> \<not> skip_metadata_columns ''When''
   \<and> transform \<lparr>columns = [''When''], rows = [[(''When'', CNaT)]]\<rparr>
        [(''w'', [(''question'', ''When''), (''type'', ''multiple_choice'')])]
      = [[(''response_id'', JInt 1), (''w'', JList [''NaT''])]]"
  by code_simp

text \<open>
  Claim C7: a question that none of the three strategies resolves does not stop the run.
  The output has one record for every row, each record has null under the key of that
  question, and under every other key each record holds what it holds when the
  unresolved question is taken out of the schema.
\<close>

theorem unresolved_question_gives_null:
  "distinct (map fst qs) \<Longrightarrow> (k, qi) \<in> set qs \<Longrightarrow>
   find_column_for_question (columns raw_data) (dict_get qi ''question'' []) = None \<Longrightarrow>
   length (transform raw_data qs) = length (rows raw_data)
   \<and> (\<forall>rec\<in>set (transform raw_data qs). map_of rec k = Some JNull)
   \<and> (\<forall>i<length (rows raw_data). \<forall>k'. k' \<noteq> k \<longrightarrow>
         map_of (transform raw_data qs ! i) k'
           = map_of (transform raw_data (filter (\<lambda>item. fst item \<noteq> k) qs) ! i) k')"
proof (intro conjI ballI allI impI)
  assume d: "distinct (map fst qs)" and m: "(k, qi) \<in> set qs"
    and f: "find_column_for_question (columns raw_data) (dict_get qi ''question'' []) = None"
  show "length (transform raw_data qs) = length (rows raw_data)" by (rule transform_length)
  {
    fix rec assume "rec \<in> set (transform raw_data qs)"
    then obtain i where i: "i < length (rows raw_data)"
      and rec: "rec = transform_row (columns raw_data) qs i (rows raw_data ! i)"
      using transform_member by blast
    let ?r = "rows raw_data ! i"
    obtain rec' where
      "map_of (foldl (process_question (columns raw_data) ?r)
                 [(''response_id'', JInt (int i + 1))] qs) k
         = map_of (process_question (columns raw_data) ?r rec' (k, qi)) k"
      using foldl_at_key [OF d m] by blast
    moreover have "process_question (columns raw_data) ?r rec' (k, qi)
                     = AList.update k JNull rec'"
      using f by (simp add: process_question_def Let_def)
    ultimately show "map_of rec k = Some JNull"
      by (simp add: rec transform_row_def update_conv')
  }
  {
    fix i k' assume i: "i < length (rows raw_data)" and k': "k' \<noteq> k"
    have "map_of (transform_row (columns raw_data) qs i (rows raw_data ! i)) k'
        = map_of (transform_row (columns raw_data) (filter (\<lambda>item. fst item \<noteq> k) qs) i
                    (rows raw_data ! i)) k'"
      unfolding transform_row_def using refl k' by (rule foldl_without_key)
    then show "map_of (transform raw_data qs ! i) k'
           = map_of (transform raw_data (filter (\<lambda>item. fst item \<noteq> k) qs) ! i) k'"
      using i by (simp add: transform_nth)
  }
qed

theorem unresolved_question_gives_null_witness:
  "find_column_for_question (columns example_table) ''Shoe size'' = None
   \<and> length (transform example_table example_questions) = 2
   \<and> map_of (transform example_table example_questions ! 0) ''zz'' = Some JNull
   \<and> map_of (transform example_table example_questions ! 1) ''zz'' = Some JNull
   \<and> map_of (transform example_table example_questions ! 0) ''fav''
       = map_of (transform example_table
                   (filter (\<lambda>item. fst item \<noteq> ''zz'') example_questions) ! 0) ''fav''"
proof -
  have d: "distinct (map fst example_questions)" by code_simp
  have m: "(''zz'', [(''question'', ''Shoe size''), (''type'', ''single_choice'')])
             \<in> set example_questions" by (simp add: example_questions_def)
  have f: "find_column_for_question (columns example_table)
             (dict_get [(''question'', ''Shoe size''), (''type'', ''single_choice'')]
                ''question'' []) = None" by code_simp
  have f': "find_column_for_question (columns example_table) ''Shoe size'' = None" by code_simp
  have l: "length (rows example_table) = 2" by (simp add: example_table_def)
  note u = unresolved_question_gives_null [OF d m f]
  have a: "length (transform example_table example_questions) = 2" using u l by simp
  have b: "\<forall>rec\<in>set (transform example_table example_questions). map_of rec ''zz'' = Some JNull"
    using u by blast
  have m0: "transform example_table example_questions ! 0
              \<in> set (transform example_table example_questions)"
    and m1: "transform example_table example_questions ! 1
              \<in> set (transform example_table example_questions)"
    using a by simp_all
  have b0: "map_of (transform example_table example_questions ! 0) ''zz'' = Some JNull"
    using b m0 by blast
  have b1: "map_of (transform example_table example_questions ! 1) ''zz'' = Some JNull"
    using b m1 by blast
  have c: "map_of (transform example_table example_questions ! 0) ''fav''
       = map_of (transform example_table
                   (filter (\<lambda>item. fst item \<noteq> ''zz'') example_questions) ! 0) ''fav''"
    using u l by simp
  show ?thesis using f' a b0 b1 c by (simp only: simp_thms)
qed

end
